theory Spec2Isabelle
  imports Main "HOL-Library.Word" "HOL-Library.Multiset"
begin

section \<open>Data model of package httplog\<close>

text \<open>
  Go strings are byte sequences; they are modelled as \<^typ>\<open>string\<close> (lists of 8-bit
  characters). Go's \<open>int\<close> is a 64-bit signed machine integer, modelled as a 64-bit word
  read through \<^const>\<open>sint\<close>.
\<close>

type_synonym go_int = "64 word"

text \<open>
  The values stored in \<open>extras\<close> have Go type \<open>interface{}\<close>. The kinds exercised by the
  package's tests are integers and strings; any other dynamic value is carried as the
  text that \<open>fmt.Sprintf("%v", v)\<close> prints for it.
\<close>

datatype extra_val = IntVal go_int | StrVal string | OtherVal string

text \<open>
  An \<open>io.Writer\<close> is held by reference. A writer is identified by a reference number and
  its observable state is the sequence of byte strings passed to its \<open>Write\<close> method.
\<close>

type_synonym writer_ref = nat
type_synonym writers = "writer_ref \<Rightarrow> string list"

record httpLogger =
  w :: writer_ref
  ip :: string
  "method" :: string
  path :: string
  ua :: string
  params :: string
  status :: go_int
  reqRaw :: string
  extras :: "string \<rightharpoonup> extra_val"

section \<open>Library functions used by the logger\<close>

text \<open>\<open>strconv.Itoa\<close>: the decimal rendering of an integer.\<close>

fun dec_digits :: "nat \<Rightarrow> string" where
  "dec_digits n =
     (if n < 10 then [''0123456789'' ! n]
      else dec_digits (n div 10) @ [''0123456789'' ! (n mod 10)])"

declare dec_digits.simps [simp del]

definition Itoa :: "int \<Rightarrow> string" where
  "Itoa i = (if i < 0 then CHR ''-'' # dec_digits (nat (- i)) else dec_digits (nat i))"

text \<open>Reading a decimal numeral back, to say what "decimal rendering" means.\<close>

definition digit_value :: "char \<Rightarrow> nat" where
  "digit_value c = of_char c - 48"

definition dec_value :: "string \<Rightarrow> nat" where
  "dec_value s = foldl (\<lambda>a c. 10 * a + digit_value c) 0 s"

definition dec_int :: "string \<Rightarrow> int" where
  "dec_int s = (case s of [] \<Rightarrow> 0
                | c # cs \<Rightarrow> if c = CHR ''-'' then - int (dec_value cs) else int (dec_value s))"

text \<open>\<open>fmt.Sprintf("%v", v)\<close> on the values of \<open>extras\<close>.\<close>

fun Sprintf_v :: "extra_val \<Rightarrow> string" where
  "Sprintf_v (IntVal i) = Itoa (sint i)"
| "Sprintf_v (StrVal s) = s"
| "Sprintf_v (OtherVal s) = s"

text \<open>The byte \<open>'\n'\<close>.\<close>

definition newline :: char where
  "newline = CHR 0x0A"

text \<open>
  \<open>Write\<close> on the writer behind a reference: the written bytes are appended to the
  sequence of writes that writer has received.
\<close>

definition Write_to :: "writers \<Rightarrow> writer_ref \<Rightarrow> string \<Rightarrow> writers" where
  "Write_to ws r p = ws(r := ws r @ [p])"

section \<open>The logger\<close>

text \<open>\<open>New\<close>: every field has Go's zero value except the writer and the empty map.\<close>

definition New :: "writer_ref \<Rightarrow> httpLogger" where
  "New wr = \<lparr> w = wr, ip = [], method = [], path = [], ua = [], params = [],
              status = 0, reqRaw = [], extras = Map.empty \<rparr>"

definition Add :: "httpLogger \<Rightarrow> string \<Rightarrow> extra_val \<Rightarrow> httpLogger" where
  "Add l key val = l\<lparr> extras := (extras l)(key \<mapsto> val) \<rparr>"

definition SetStatus :: "httpLogger \<Rightarrow> go_int \<Rightarrow> httpLogger" where
  "SetStatus l s = l\<lparr> status := s \<rparr>"

text \<open>
  Go's \<open>range\<close> over a map visits every key exactly once, in an order the language leaves
  unspecified and the runtime randomises. The order taken by one execution of the loop
  is a parameter of the model: a list of keys that \<open>range_order\<close> accepts.
\<close>

definition range_order :: "('k \<rightharpoonup> 'v) \<Rightarrow> 'k list \<Rightarrow> bool" where
  "range_order m ks \<longleftrightarrow> distinct ks \<and> set ks = dom m"

text \<open>The segment that one iteration of the loop over \<open>extras\<close> appends.\<close>

definition extras_segment :: "httpLogger \<Rightarrow> string \<Rightarrow> string" where
  "extras_segment l k = '' '' @ k @ ''='' @ Sprintf_v (the (extras l k))"

text \<open>
  \<open>buildLogEntry\<close>. The formatted current time \<open>now\<close> (the result of
  \<open>time.Now().UTC().Format(...)\<close>) and the order \<open>ks\<close> of the \<open>range\<close> loop are
  parameters.
\<close>

definition buildLogEntry :: "httpLogger \<Rightarrow> string \<Rightarrow> string list \<Rightarrow> string" where
  "buildLogEntry l now ks =
    (let buf = [];
         buf = buf @ ''level=I'';
         buf = buf @ ('' time='' @ now);
         buf = buf @ ('' ip='' @ ip l);
         buf = buf @ ('' method='' @ method l);
         buf = buf @ ('' path='' @ path l);
         buf = buf @ ('' ua='' @ ua l);
         buf = buf @ ('' status='' @ Itoa (sint (status l)));
         buf = buf @ ('' params='' @ params l);
         buf = foldl (\<lambda>b k. b @ extras_segment l k) buf ks
     in buf)"

text \<open>
  \<open>Log\<close>: one call of \<open>Write\<close> on the logger's writer. The logger is passed through, as
  the method has a pointer receiver.
\<close>

definition Log :: "httpLogger \<Rightarrow> writers \<Rightarrow> string \<Rightarrow> string list \<Rightarrow> httpLogger \<times> writers" where
  "Log l ws now ks = (l, Write_to ws (w l) (buildLogEntry l now ks @ [newline]))"

section \<open>Request-info extraction\<close>

subsection \<open>The request\<close>

text \<open>
  The fields of \<open>http.Request\<close> that the package reads. \<open>Header\<close> is Go's
  \<open>map[string][]string\<close> with canonical keys. \<open>Dump\<close> stands for the result of
  \<open>httputil.DumpRequest(r, true)\<close>, the wire format of the request: \<open>None\<close> when that
  call returns an error.
\<close>

record Request =
  Header :: "string \<rightharpoonup> string list"
  RemoteAddr :: string
  Dump :: "string option"

text \<open>\<open>Header.Get\<close>: the first value stored under the key, the empty string if there is none.\<close>

definition Header_Get :: "(string \<rightharpoonup> string list) \<Rightarrow> string \<Rightarrow> string" where
  "Header_Get h key = (case h key of None \<Rightarrow> [] | Some vs \<Rightarrow> (case vs of [] \<Rightarrow> [] | v # _ \<Rightarrow> v))"

subsection \<open>net.SplitHostPort\<close>

definition IndexByte :: "string \<Rightarrow> char \<Rightarrow> nat option" where
  "IndexByte s c = (if c \<in> set s then Some (length (takeWhile (\<lambda>x. x \<noteq> c) s)) else None)"

definition LastIndexByte :: "string \<Rightarrow> char \<Rightarrow> nat option" where
  "LastIndexByte s c =
     (if c \<in> set s then Some (length s - Suc (length (takeWhile (\<lambda>x. x \<noteq> c) (rev s)))) else None)"

text \<open>
  The checks shared by both branches of \<open>SplitHostPort\<close>: no \<open>[\<close> from position \<open>j\<close> on,
  no \<open>]\<close> from position \<open>k\<close> on; the port is what follows the last colon, at \<open>i\<close>.
\<close>

definition split_checks :: "string \<Rightarrow> string \<Rightarrow> nat \<Rightarrow> nat \<Rightarrow> nat \<Rightarrow> string + (string \<times> string)" where
  "split_checks hostport host i j k =
     (if IndexByte (drop j hostport) (CHR ''['') \<noteq> None then Inl ''unexpected '[' in address''
      else if IndexByte (drop k hostport) (CHR '']'') \<noteq> None then Inl ''unexpected ']' in address''
      else Inr (host, drop (Suc i) hostport))"

definition SplitHostPort :: "string \<Rightarrow> string + (string \<times> string)" where
  "SplitHostPort hostport =
     (case LastIndexByte hostport (CHR '':'') of
        None \<Rightarrow> Inl ''missing port in address''
      | Some i \<Rightarrow>
          if hostport ! 0 = CHR ''['' then
            (case IndexByte hostport (CHR '']'') of
               None \<Rightarrow> Inl ''missing ']' in address''
             | Some e \<Rightarrow>
                 if Suc e = length hostport then Inl ''missing port in address''
                 else if Suc e = i then split_checks hostport (take (e - 1) (drop 1 hostport)) i 1 (Suc e)
                 else if hostport ! (Suc e) = CHR '':'' then Inl ''too many colons in address''
                 else Inl ''missing port in address'')
          else
            (let host = take i hostport in
             if IndexByte host (CHR '':'') \<noteq> None then Inl ''too many colons in address''
             else split_checks hostport host i 0 0))"

definition getIP :: "Request \<Rightarrow> string" where
  "getIP r =
     (let forwarded = Header_Get (Header r) ''X-Forwarded-For'' in
      if length forwarded > 0 then forwarded
      else (case SplitHostPort (RemoteAddr r) of
              Inl err \<Rightarrow> RemoteAddr r
            | Inr (host, port) \<Rightarrow> host))"

definition reqDump :: "Request \<Rightarrow> string" where
  "reqDump r = (case Dump r of None \<Rightarrow> [] | Some dump \<Rightarrow> dump)"

subsection \<open>Package regexp, for the three patterns of the logger\<close>

text \<open>
  The patterns the logger compiles are sequences of single-character classes and of
  capture groups \<open>(.+)\<close>. \<open>AnyNotNL\<close> is \<open>.\<close> (any character but the newline), \<open>Space\<close> is
  \<open>\s\<close> (tab, newline, form feed, carriage return, space), \<open>Lit c\<close> is the literal \<open>c\<close>.
  The delimiters of all three patterns are ASCII, so matching bytes and matching UTF-8
  runes find the same submatches.
\<close>

datatype cls = AnyNotNL | Space | Lit char

fun accepts :: "cls \<Rightarrow> char \<Rightarrow> bool" where
  "accepts AnyNotNL c = (c \<noteq> CHR 0x0A)"
| "accepts Space c = (c = CHR 0x09 \<or> c = CHR 0x0A \<or> c = CHR 0x0C \<or> c = CHR 0x0D \<or> c = CHR 0x20)"
| "accepts (Lit a) c = (c = a)"

datatype item = One cls | GroupPlus cls

type_synonym regexp = "item list"

text \<open>
  Go's regexp returns the match a backtracking search finds first (leftmost, and among
  the leftmost the one preferred by greedy repetition). \<open>match_here re s\<close> matches \<open>re\<close>
  at the start of \<open>s\<close>: the number of characters matched and the text of the groups.
  \<open>try_plus c re s n\<close> lets a group take \<open>n\<close> characters, then \<open>n - 1\<close>, down to one.
\<close>

fun match_here :: "regexp \<Rightarrow> string \<Rightarrow> (nat \<times> string list) option"
  and try_plus :: "cls \<Rightarrow> regexp \<Rightarrow> string \<Rightarrow> nat \<Rightarrow> (nat \<times> string list) option" where
  "match_here [] s = Some (0, [])"
| "match_here (One c # re) [] = None"
| "match_here (One c # re) (x # xs) =
     (if accepts c x
      then (case match_here re xs of None \<Rightarrow> None | Some (n, gs) \<Rightarrow> Some (Suc n, gs))
      else None)"
| "match_here (GroupPlus c # re) s = try_plus c re s (length (takeWhile (accepts c) s))"
| "try_plus c re s 0 = None"
| "try_plus c re s (Suc n) =
     (case match_here re (drop (Suc n) s) of
        Some (m, gs) \<Rightarrow> Some (Suc n + m, take (Suc n) s # gs)
      | None \<Rightarrow> try_plus c re s n)"

text \<open>
  \<open>FindStringSubmatch\<close>: the leftmost match; the matched text followed by the text of
  each group, or the empty list (Go's nil slice) when there is no match.
\<close>

fun FindStringSubmatch :: "regexp \<Rightarrow> string \<Rightarrow> string list" where
  "FindStringSubmatch re [] =
     (case match_here re [] of Some (n, gs) \<Rightarrow> [] # gs | None \<Rightarrow> [])"
| "FindStringSubmatch re (x # xs) =
     (case match_here re (x # xs) of
        Some (n, gs) \<Rightarrow> take n (x # xs) # gs
      | None \<Rightarrow> FindStringSubmatch re xs)"

text \<open>The pattern \<open>(.+)\s(.+)\sHTTP\<close>.\<close>

definition pathRegexp :: regexp where
  "pathRegexp = [GroupPlus AnyNotNL, One Space, GroupPlus AnyNotNL, One Space,
                 One (Lit CHR ''H''), One (Lit CHR ''T''), One (Lit CHR ''T''), One (Lit CHR ''P'')]"

text \<open>The pattern \<open>User-Agent:\s(.+)\<close>.\<close>

definition userAgentRegexp :: regexp where
  "userAgentRegexp = map (\<lambda>c. One (Lit c)) ''User-Agent:'' @ [One Space, GroupPlus AnyNotNL]"

text \<open>The pattern \<open>(.+)\?(.+)\<close>.\<close>

definition getParamsRegexp :: regexp where
  "getParamsRegexp = [GroupPlus AnyNotNL, One (Lit CHR ''?''), GroupPlus AnyNotNL]"

subsection \<open>strings.Replacer and toJSON\<close>

text \<open>
  A replacer whose old strings are all single bytes replaces byte by byte; the first
  pair with a given old byte takes precedence.
\<close>

fun Replace :: "(char \<times> string) list \<Rightarrow> string \<Rightarrow> string" where
  "Replace oldnew [] = []"
| "Replace oldnew (b # s) =
     (case map_of oldnew b of None \<Rightarrow> [b] | Some new \<Rightarrow> new) @ Replace oldnew s"

definition toJSON :: "string \<Rightarrow> string" where
  \<open>toJSON s = ''{"'' @ Replace [(CHR ''='', ''": "''), (CHR ''&'', ''", "'')] s @ ''"}''\<close>

subsection \<open>bufio.Scanner with the default split function ScanLines\<close>

definition MaxScanTokenSize :: nat where
  "MaxScanTokenSize = 64 * 1024"

definition dropCR :: "string \<Rightarrow> string" where
  "dropCR data = (if length data > 0 \<and> last data = CHR 0x0D then butlast data else data)"

text \<open>
  The lines the loop \<open>for s.Scan()\<close> sees. A line ends at a newline or at the end of the
  input; one trailing carriage return is dropped. The scanner's buffer holds at most
  \<open>MaxScanTokenSize\<close> bytes: when that many bytes hold no newline, \<open>Scan\<close> reports
  \<open>ErrTooLong\<close> by returning false, which ends the loop.
\<close>

function scan_lines :: "string \<Rightarrow> string list" where
  "scan_lines data =
     (if data = [] then []
      else (let tok = takeWhile (\<lambda>c. c \<noteq> CHR 0x0A) data in
            if length tok \<ge> MaxScanTokenSize then []
            else dropCR tok # scan_lines (drop (Suc (length tok)) data)))"
  by pat_completeness auto
termination
  by (relation "measure length") auto

declare scan_lines.simps [simp del]

subsection \<open>setPath, setUa, SetRequestInfo\<close>

definition setPath :: "httpLogger \<Rightarrow> string \<Rightarrow> regexp \<Rightarrow> regexp \<Rightarrow> httpLogger" where
  "setPath l line pathRe getParamsRe =
     (let matches = FindStringSubmatch pathRe line in
      if length matches > 0 then
        (let l = l\<lparr> method := matches ! 1 \<rparr>;
             l = l\<lparr> path := matches ! 2 \<rparr>;
             matches = FindStringSubmatch getParamsRe (matches ! 2) in
         if length matches > 0
         then (let l = l\<lparr> path := matches ! 1 \<rparr> in l\<lparr> params := toJSON (matches ! 2) \<rparr>)
         else l)
      else l)"

definition setUa :: "httpLogger \<Rightarrow> string \<Rightarrow> regexp \<Rightarrow> httpLogger" where
  "setUa l h r =
     (let matches = FindStringSubmatch r h in
      if length matches > 0 then l\<lparr> ua := matches ! 1 \<rparr> else l)"

text \<open>
  \<open>SetRequestInfo\<close>. The loop carries the logger and the local variable \<open>line\<close>, which
  starts as the empty string and holds the text of the last line scanned.
\<close>

definition scan_step :: "httpLogger \<times> string \<Rightarrow> string \<Rightarrow> httpLogger \<times> string" where
  "scan_step st text =
     (let l = setPath (fst st) text pathRegexp getParamsRegexp;
          l = setUa l text userAgentRegexp
      in (l, text))"

definition SetRequestInfo :: "httpLogger \<Rightarrow> Request \<Rightarrow> httpLogger" where
  "SetRequestInfo l r =
     (let l = l\<lparr> ip := getIP r \<rparr>;
          l = l\<lparr> reqRaw := reqDump r \<rparr>;
          (l, line) = foldl scan_step (l, []) (scan_lines (reqRaw l))
      in if length (params l) = 0 then l\<lparr> params := line \<rparr> else l)"

section \<open>The logging middleware\<close>

text \<open>
  The \<open>http.ResponseWriter\<close> handed to the middleware is held by reference; its
  observable state is the sequence of method calls it has received.
\<close>

datatype rw_call = WriteHeader go_int | Write string

record loggingResponseWriter =
  ResponseWriter :: "rw_call list"
  Status :: go_int

text \<open>
  \<open>loggingResponseWriter.WriteHeader\<close>, and \<open>Write\<close>, which the embedded
  \<open>http.ResponseWriter\<close> provides unchanged.
\<close>

definition lrw_WriteHeader :: "loggingResponseWriter \<Rightarrow> go_int \<Rightarrow> loggingResponseWriter" where
  "lrw_WriteHeader lrw st =
     (let lrw = lrw\<lparr> Status := st \<rparr>
      in lrw\<lparr> ResponseWriter := ResponseWriter lrw @ [WriteHeader st] \<rparr>)"

definition lrw_Write :: "loggingResponseWriter \<Rightarrow> string \<Rightarrow> loggingResponseWriter" where
  "lrw_Write lrw p = lrw\<lparr> ResponseWriter := ResponseWriter lrw @ [Write p] \<rparr>"

text \<open>
  One run of the downstream handler \<open>next.ServeHTTP(lrw, r)\<close> is the sequence of calls it
  makes on the writer it was given, and the way it ends: it returns, or it panics.
\<close>

datatype completion = Returns | Panics

type_synonym handler_run = "rw_call list \<times> completion"

fun lrw_call :: "loggingResponseWriter \<Rightarrow> rw_call \<Rightarrow> loggingResponseWriter" where
  "lrw_call lrw (WriteHeader st) = lrw_WriteHeader lrw st"
| "lrw_call lrw (Write p) = lrw_Write lrw p"

text \<open>
  The state the middleware acts on: the logger, the writers behind the logger, and the
  calls received by the real response writer.
\<close>

record world =
  logger :: httpLogger
  sinks :: writers
  response :: "rw_call list"

text \<open>
  \<open>loggingHandler.ServeHTTP\<close>. A panic of the downstream handler unwinds through
  \<open>ServeHTTP\<close>: the statements after \<open>h.next.ServeHTTP(lrw, r)\<close>, among them the \<open>defer\<close>
  statement, are not executed. When the handler returns, the deferred \<open>Log\<close> runs as
  \<open>ServeHTTP\<close> returns, which is right after \<open>SetStatus\<close>.
\<close>

definition ServeHTTP ::
  "(Request \<Rightarrow> handler_run) \<Rightarrow> world \<Rightarrow> Request \<Rightarrow> string \<Rightarrow> string list \<Rightarrow> completion \<times> world" where
  "ServeHTTP next wd r now ks =
     (let l = SetRequestInfo (logger wd) r;
          lrw = \<lparr> ResponseWriter = response wd, Status = 0 \<rparr>;
          (calls, c) = next r;
          lrw = foldl lrw_call lrw calls
      in case c of
           Panics \<Rightarrow> (Panics, wd\<lparr> logger := l, response := ResponseWriter lrw \<rparr>)
         | Returns \<Rightarrow>
             (let l = SetStatus l (Status lrw);
                  (l, ws) = Log l (sinks wd) now ks
              in (Returns, \<lparr> logger = l, sinks = ws, response = ResponseWriter lrw \<rparr>)))"

section \<open>The query-to-JSON rule as claim C2 words it\<close>


section \<open>Two requests served with one logger\<close>

text \<open>
  A \<open>GET\<close> with a query string and a \<open>User-Agent\<close> header, and a \<open>POST\<close> with a body and no
  \<open>User-Agent\<close> header, each with the dump \<open>httputil.DumpRequest\<close> prints for it.
\<close>

definition crlf :: string where
  "crlf = [CHR 0x0D, CHR 0x0A]"

definition req_get :: Request where
  "req_get = \<lparr> Header = [''User-Agent'' \<mapsto> [''u1'']], RemoteAddr = ''192.0.2.1:1234'',
     Dump = Some (''GET /a?x=1 HTTP/1.1'' @ crlf @ ''Host: h'' @ crlf
                  @ ''User-Agent: u1'' @ crlf @ crlf) \<rparr>"

definition req_post :: Request where
  "req_post = \<lparr> Header = Map.empty, RemoteAddr = ''192.0.2.1:1234'',
     Dump = Some (''POST /b HTTP/1.1'' @ crlf @ ''Host: h'' @ crlf @ crlf @ ''k=v'') \<rparr>"





section \<open>Auxiliary facts\<close>

lemma foldl_append_concat: "foldl (\<lambda>b k. b @ f k) buf ks = buf @ concat (map f ks)"
  by (induction ks arbitrary: buf) simp_all

lemma buildLogEntry_layout:
  "buildLogEntry l now ks =
     ''level=I'' @ '' time='' @ now @ '' ip='' @ ip l @ '' method='' @ method l
       @ '' path='' @ path l @ '' ua='' @ ua l @ '' status='' @ Itoa (sint (status l))
       @ '' params='' @ params l @ concat (map (extras_segment l) ks)"
  by (simp add: buildLogEntry_def foldl_append_concat)

lemma extras_segment_fun:
  "extras_segment l = (\<lambda>k. '' '' @ k @ ''='' @ Sprintf_v (the (extras l k)))"
  by (simp add: fun_eq_iff extras_segment_def)

lemma range_order_length: "range_order m ks \<Longrightarrow> length ks = card (dom m)"
  unfolding range_order_def using distinct_card by metis

lemma range_order_mset: "range_order m ks \<Longrightarrow> range_order m ks' \<Longrightarrow> mset ks = mset ks'"
  unfolding range_order_def using set_eq_iff_mset_eq_distinct by metis

lemma range_order_empty: "range_order Map.empty ks \<longleftrightarrow> ks = []"
  by (auto simp: range_order_def)


lemma range_order_small:
  assumes "range_order m ks1" and "range_order m ks2" and "card (dom m) \<le> 1"
  shows "ks1 = ks2"
proof -
  have l1: "length ks1 \<le> 1" and l2: "length ks2 \<le> 1"
    using assms range_order_length by fastforce+
  have s: "set ks1 = set ks2" using assms by (simp add: range_order_def)
  show ?thesis
  proof (cases ks1)
    case Nil
    then show ?thesis using s by simp
  next
    case (Cons a as)
    then have "ks1 = [a]" using l1 by simp
    moreover obtain b where "ks2 = [b]" using l2 s Cons by (cases ks2) auto
    ultimately show ?thesis using s by simp
  qed
qed


subsection \<open>Decimal numerals\<close>

lemma digit_nth: "d < 10 \<Longrightarrow> digit_value (''0123456789'' ! d) = d"
proof -
  assume "d < 10"
  then have "d \<in> {0, 1, 2, 3, 4, 5, 6, 7, 8, 9}" by auto
  then show ?thesis by (auto simp: digit_value_def)
qed

lemma dec_value_snoc: "dec_value (s @ [c]) = 10 * dec_value s + digit_value c"
  by (simp add: dec_value_def)

lemma dec_value_digits: "dec_value (dec_digits n) = n"
proof (induction n rule: dec_digits.induct)
  case (1 n)
  show ?case
  proof (cases "n < 10")
    case True
    then show ?thesis
      by (subst dec_digits.simps) (simp add: dec_value_def digit_nth)
  next
    case False
    then show ?thesis
      using 1 by (subst dec_digits.simps) (simp add: dec_value_snoc digit_nth)
  qed
qed

lemma dec_digits_are_digits: "dec_digits n \<noteq> [] \<and> set (dec_digits n) \<subseteq> set ''0123456789''"
proof (induction n rule: dec_digits.induct)
  case (1 n)
  have d: "''0123456789'' ! k \<in> set ''0123456789''" if "k < 10" for k
    using that nth_mem[of k "''0123456789''"] by simp
  show ?case
  proof (cases "n < 10")
    case True
    then show ?thesis using d[of n] by (subst (1 2) dec_digits.simps) simp
  next
    case False
    then show ?thesis using 1 d[of "n mod 10"] by (subst (1 2) dec_digits.simps) simp
  qed
qed

lemma dec_int_Itoa: "dec_int (Itoa i) = i"
proof (cases "i < 0")
  case True
  then show ?thesis by (simp add: Itoa_def dec_int_def dec_value_digits)
next
  case False
  obtain c cs where cs: "dec_digits (nat i) = c # cs"
    using dec_digits_are_digits[of "nat i"] by (cases "dec_digits (nat i)") auto
  then have "c \<in> set ''0123456789''" using dec_digits_are_digits[of "nat i"] by auto
  then have "c \<noteq> CHR ''-''" by auto
  then show ?thesis
    using False cs dec_value_digits[of "nat i"] by (simp add: Itoa_def dec_int_def)
qed

subsection \<open>Backtracking search\<close>








subsection \<open>toJSON and setPath\<close>




lemma setPath_target_only:
  assumes "FindStringSubmatch pathRe line = [whole, m, t]"
    and "FindStringSubmatch getParamsRe t = []"
  shows "setPath l line pathRe getParamsRe = l\<lparr> method := m, path := t \<rparr>"
  using assms by (simp add: setPath_def Let_def)



subsection \<open>SplitHostPort\<close>

lemma takeWhile_upto:
  "c \<notin> set h \<Longrightarrow> takeWhile (\<lambda>x. x \<noteq> c) (h @ c # p) = h"
  by (induction h) auto

lemma LastIndexByte_append:
  "c \<notin> set p \<Longrightarrow> LastIndexByte (h @ c # p) c = Some (length h)"
  using takeWhile_upto[of c "rev p" "rev h"] by (simp add: LastIndexByte_def)

lemma IndexByte_append:
  "c \<notin> set h \<Longrightarrow> IndexByte (h @ c # p) c = Some (length h)"
  by (simp add: IndexByte_def takeWhile_upto)

lemma IndexByte_None: "IndexByte s c = None \<longleftrightarrow> c \<notin> set s"
  by (simp add: IndexByte_def)

lemma SplitHostPort_plain:
  assumes "CHR '':'' \<notin> set h" "CHR '':'' \<notin> set p"
  and "CHR ''['' \<notin> set (h @ p)" "CHR '']'' \<notin> set (h @ p)"
  shows "SplitHostPort (h @ '':'' @ p) = Inr (h, p)"
proof -
  have i: "LastIndexByte (h @ '':'' @ p) (CHR '':'') = Some (length h)"
    using assms(2) LastIndexByte_append[of "CHR '':''" p h] by simp
  have z: "(h @ '':'' @ p) ! 0 \<noteq> CHR ''[''"
    using assms(3) by (cases h) auto
  show ?thesis
    using assms i z by (simp add: SplitHostPort_def split_checks_def IndexByte_None)
qed

lemma SplitHostPort_bracket:
  assumes "CHR '':'' \<notin> set p"
  and "CHR ''['' \<notin> set (h @ p)" "CHR '']'' \<notin> set (h @ p)"
  shows "SplitHostPort (''['' @ h @ '']:'' @ p) = Inr (h, p)"
proof -
  let ?s = "''['' @ h @ '']:'' @ p"
  have "?s = (''['' @ h @ '']'') @ CHR '':'' # p" by simp
  then have i: "LastIndexByte ?s (CHR '':'') = Some (Suc (Suc (length h)))"
    using assms(1) LastIndexByte_append[of "CHR '':''" p "''['' @ h @ '']''"] by simp
  have "?s = (''['' @ h) @ CHR '']'' # ('':'' @ p)" by simp
  then have e: "IndexByte ?s (CHR '']'') = Some (Suc (length h))"
    using assms(3) IndexByte_append[of "CHR '']''" "''['' @ h" "'':'' @ p"] by simp
  show ?thesis
    using assms i e by (simp add: SplitHostPort_def split_checks_def IndexByte_None)
qed

lemma SplitHostPort_no_colon:
  "CHR '':'' \<notin> set s \<Longrightarrow> SplitHostPort s = Inl ''missing port in address''"
  by (simp add: SplitHostPort_def LastIndexByte_def)

lemma IndexByte_Some:
  assumes "IndexByte s c = Some e"
  shows "s = take e s @ c # drop (Suc e) s \<and> c \<notin> set (take e s) \<and> e < length s"
proof -
  have c: "c \<in> set s" and e: "e = length (takeWhile (\<lambda>x. x \<noteq> c) s)"
    using assms by (auto simp: IndexByte_def split: if_splits)
  obtain ys zs where s: "s = ys @ c # zs" and ys: "c \<notin> set ys"
    using c by (meson split_list_first)
  have "e = length ys" using e s ys by (simp add: takeWhile_upto)
  then show ?thesis using s ys by simp
qed

lemma LastIndexByte_Some:
  assumes "LastIndexByte s c = Some i"
  shows "s = take i s @ c # drop (Suc i) s \<and> c \<notin> set (drop (Suc i) s) \<and> i < length s"
proof -
  have c: "c \<in> set s"
    and i: "i = length s - Suc (length (takeWhile (\<lambda>x. x \<noteq> c) (rev s)))"
    using assms by (auto simp: LastIndexByte_def split: if_splits)
  obtain ys zs where s: "s = ys @ c # zs" and zs: "c \<notin> set zs"
    using c by (meson split_list_last)
  have "takeWhile (\<lambda>x. x \<noteq> c) (rev s) = rev zs"
    using takeWhile_upto[of c "rev zs" "rev ys"] s zs by simp
  then have "i = length ys" using i s by simp
  then show ?thesis using s zs by simp
qed

lemma split_checks_Inr:
  "split_checks s host i j k = Inr (h, p) \<Longrightarrow> h = host \<and> p = drop (Suc i) s"
  by (auto simp: split_checks_def split: if_splits)

lemma SplitHostPort_shape:
  assumes "SplitHostPort s = Inr (h, p)"
  shows "(s = h @ '':'' @ p \<or> s = ''['' @ h @ '']:'' @ p) \<and> CHR '':'' \<notin> set p"
proof -
  obtain i where i: "LastIndexByte s (CHR '':'') = Some i"
    using assms by (auto simp: SplitHostPort_def split: option.splits)
  note li = LastIndexByte_Some[OF i]
  show ?thesis
  proof (cases "s ! 0 = CHR ''[''")
    case False
    then have "split_checks s (take i s) i 0 0 = Inr (h, p)"
      using assms i by (auto simp: SplitHostPort_def Let_def split: if_splits)
    then have "h = take i s" "p = drop (Suc i) s" using split_checks_Inr by blast+
    then show ?thesis using li by simp
  next
    case True
    then obtain e where e: "IndexByte s (CHR '']'') = Some e" and ei: "Suc e = i"
      and sc: "split_checks s (take (e - 1) (drop 1 s)) i 1 (Suc e) = Inr (h, p)"
      using assms i by (auto simp: SplitHostPort_def split: option.splits if_splits)
    note ie = IndexByte_Some[OF e]
    have h: "h = take (e - 1) (drop 1 s)" and p: "p = drop (Suc i) s"
      using sc split_checks_Inr by blast+
    have e0: "e \<noteq> 0"
    proof
      assume "e = 0"
      then have "s ! 0 = CHR '']''" using ie by (metis nth_append_length take_eq_Nil list.size(3))
      then show False using True by simp
    qed
    have s0: "take 1 s = ''[''" using True ie by (cases s) auto
    have "take e s = take 1 s @ take (e - 1) (drop 1 s)"
      using e0 by (metis One_nat_def Suc_pred add.commute not_gr_zero plus_1_eq_Suc take_add)
    then have te: "take e s = ''['' @ h" using s0 h by simp
    have "drop (Suc e) s = CHR '':'' # p"
      using li ei p by (metis Cons_nth_drop_Suc nth_append_length length_take min.absorb2 less_imp_le_nat)
    then have "s = (''['' @ h) @ CHR '']'' # CHR '':'' # p" using ie te by metis
    then show ?thesis using li p by simp
  qed
qed


subsection \<open>The middleware\<close>

lemma scan_step_w: "w (fst (scan_step st t)) = w (fst st)"
  by (simp add: scan_step_def setPath_def setUa_def Let_def)

lemma foldl_scan_step_w: "w (fst (foldl scan_step st ts)) = w (fst st)"
  by (induction ts arbitrary: st) (simp_all add: scan_step_w)

lemma SetRequestInfo_w: "w (SetRequestInfo l r) = w l"
  by (simp add: SetRequestInfo_def Let_def case_prod_beta foldl_scan_step_w)

lemma foldl_lrw_call:
  "Status (foldl lrw_call lrw calls) = last (Status lrw # [s. WriteHeader s \<leftarrow> calls])
   \<and> ResponseWriter (foldl lrw_call lrw calls) = ResponseWriter lrw @ calls"
proof (induction calls arbitrary: lrw)
  case Nil
  then show ?case by simp
next
  case (Cons c calls)
  show ?case
    by (cases c) (simp_all add: Cons.IH lrw_WriteHeader_def lrw_Write_def Let_def)
qed


subsection \<open>The two requests, line by line\<close>

lemma submatch_1: "FindStringSubmatch pathRegexp ''GET /a?x=1 HTTP/1.1'' = [''GET /a?x=1 HTTP'', ''GET'', ''/a?x=1'']"
  by (simp add: pathRegexp_def)

lemma submatch_2: "FindStringSubmatch userAgentRegexp ''GET /a?x=1 HTTP/1.1'' = []"
  by (simp add: userAgentRegexp_def)

lemma submatch_3: "FindStringSubmatch pathRegexp ''Host: h'' = []"
  by (simp add: pathRegexp_def)

lemma submatch_4: "FindStringSubmatch userAgentRegexp ''Host: h'' = []"
  by (simp add: userAgentRegexp_def)

lemma submatch_5: "FindStringSubmatch pathRegexp ''User-Agent: u1'' = []"
  by (simp add: pathRegexp_def)

lemma submatch_6: "FindStringSubmatch userAgentRegexp ''User-Agent: u1'' = [''User-Agent: u1'', ''u1'']"
  by (simp add: userAgentRegexp_def)

lemma submatch_7: "FindStringSubmatch pathRegexp [] = []"
  by (simp add: pathRegexp_def)

lemma submatch_8: "FindStringSubmatch userAgentRegexp [] = []"
  by (simp add: userAgentRegexp_def)

lemma submatch_9: "FindStringSubmatch pathRegexp ''POST /b HTTP/1.1'' = [''POST /b HTTP'', ''POST'', ''/b'']"
  by (simp add: pathRegexp_def)

lemma submatch_10: "FindStringSubmatch userAgentRegexp ''POST /b HTTP/1.1'' = []"
  by (simp add: userAgentRegexp_def)

lemma submatch_11: "FindStringSubmatch pathRegexp ''k=v'' = []"
  by (simp add: pathRegexp_def)

lemma submatch_12: "FindStringSubmatch userAgentRegexp ''k=v'' = []"
  by (simp add: userAgentRegexp_def)

lemma submatch_13: "FindStringSubmatch getParamsRegexp ''/a?x=1'' = [''/a?x=1'', ''/a'', ''x=1'']"
  by (simp add: getParamsRegexp_def)

lemma submatch_14: "FindStringSubmatch getParamsRegexp ''/b'' = []"
  by (simp add: getParamsRegexp_def)

lemmas submatches = submatch_1 submatch_2 submatch_3 submatch_4 submatch_5 submatch_6 submatch_7 submatch_8 submatch_9 submatch_10 submatch_11 submatch_12 submatch_13 submatch_14

lemma scan_get: "scan_lines (reqDump req_get) = [''GET /a?x=1 HTTP/1.1'', ''Host: h'', ''User-Agent: u1'', []]"
  by (simp add: req_get_def reqDump_def crlf_def scan_lines.simps dropCR_def MaxScanTokenSize_def)

lemma scan_post: "scan_lines (reqDump req_post) = [''POST /b HTTP/1.1'', ''Host: h'', [], ''k=v'']"
  by (simp add: req_post_def reqDump_def crlf_def scan_lines.simps dropCR_def MaxScanTokenSize_def)

lemma ip_get: "getIP req_get = ''192.0.2.1''"
  by (simp add: req_get_def getIP_def Header_Get_def SplitHostPort_def LastIndexByte_def IndexByte_def split_checks_def)

lemma ip_post: "getIP req_post = ''192.0.2.1''"
  by (simp add: req_post_def getIP_def Header_Get_def SplitHostPort_def LastIndexByte_def IndexByte_def split_checks_def)

lemma SetRequestInfo_get:
  \<open>SetRequestInfo (New 0) req_get
   = (New 0)\<lparr> ip := ''192.0.2.1'', method := ''GET'', path := ''/a'', ua := ''u1'',
               params := ''{"x": "1"}'', reqRaw := reqDump req_get \<rparr>\<close>
  by (simp add: SetRequestInfo_def scan_get ip_get scan_step_def setPath_def setUa_def submatches New_def
        toJSON_def del: FindStringSubmatch.simps)

lemma SetRequestInfo_post_after_get:
  \<open>SetRequestInfo (SetRequestInfo (New 0) req_get) req_post
   = (New 0)\<lparr> ip := ''192.0.2.1'', method := ''POST'', path := ''/b'', ua := ''u1'',
               params := ''{"x": "1"}'', reqRaw := reqDump req_post \<rparr>\<close>
  unfolding SetRequestInfo_get
  by (simp add: SetRequestInfo_def scan_post ip_post scan_step_def setPath_def setUa_def submatches New_def
        del: FindStringSubmatch.simps)

lemma SetRequestInfo_post:
  \<open>SetRequestInfo (New 0) req_post
   = (New 0)\<lparr> ip := ''192.0.2.1'', method := ''POST'', path := ''/b'',
               params := ''k=v'', reqRaw := reqDump req_post \<rparr>\<close>
  by (simp add: SetRequestInfo_def scan_post ip_post scan_step_def setPath_def setUa_def submatches New_def
        del: FindStringSubmatch.simps)


subsection \<open>Requests with a query string\<close>


























section \<open>Frame properties of SetStatus and Add\<close>

text \<open>
  Claim C10. \<open>SetStatus l s\<close> sets the status field to \<open>s\<close> and leaves every other field
  as it was; \<open>Add l k v\<close> stores \<open>v\<close> under key \<open>k\<close> of the extras map, leaves every other
  entry of the map as it was and changes no other field.
\<close>

theorem SetStatus_Add_frame:
  "status (SetStatus l s) = s
   \<and> SetStatus l s = l\<lparr> status := s \<rparr>
   \<and> w (SetStatus l s) = w l \<and> ip (SetStatus l s) = ip l
   \<and> method (SetStatus l s) = method l \<and> path (SetStatus l s) = path l
   \<and> ua (SetStatus l s) = ua l \<and> params (SetStatus l s) = params l
   \<and> reqRaw (SetStatus l s) = reqRaw l \<and> extras (SetStatus l s) = extras l
   \<and> extras (Add l k v) k = Some v
   \<and> (\<forall>k'. k' \<noteq> k \<longrightarrow> extras (Add l k v) k' = extras l k')
   \<and> w (Add l k v) = w l \<and> ip (Add l k v) = ip l
   \<and> method (Add l k v) = method l \<and> path (Add l k v) = path l
   \<and> ua (Add l k v) = ua l \<and> params (Add l k v) = params l
   \<and> status (Add l k v) = status l \<and> reqRaw (Add l k v) = reqRaw l"
  by (simp add: SetStatus_def Add_def)

theorem SetStatus_Add_frame_witness:
  "''b'' \<noteq> ''a''
   \<and> extras (Add (SetStatus (New 0) 200) ''a'' (IntVal 1)) ''b'' = extras (SetStatus (New 0) 200) ''b''
   \<and> extras (Add (SetStatus (New 0) 200) ''a'' (IntVal 1)) ''a'' = Some (IntVal 1)
   \<and> status (Add (SetStatus (New 0) 200) ''a'' (IntVal 1)) = 200"
  using SetStatus_Add_frame [of "New 0" 200 "''a''" "IntVal 1"]
        SetStatus_Add_frame [of "SetStatus (New 0) 200" 200 "''a''" "IntVal 1"]
  by simp

section \<open>The written line\<close>

text \<open>
  Claim C3. For every logger state, \<open>Log\<close> performs exactly one write on the logger's
  writer. The bytes written are \<open>level=I\<close>, then the fields \<open>time\<close>, \<open>ip\<close>, \<open>method\<close>,
  \<open>path\<close>, \<open>ua\<close>, \<open>status\<close> (as a decimal integer) and \<open>params\<close> in this order, each as
  a space followed by \<open>key=value\<close>, then one such segment for every key of \<open>extras\<close> (each
  key once), then one newline, with nothing between the last segment and the newline.
\<close>

theorem Log_writes_one_line:
  assumes "range_order (extras l) ks"
  shows "fst (Log l ws now ks) = l
   \<and> snd (Log l ws now ks) (w l) = ws (w l) @
       [''level=I'' @ concat (map (\<lambda>(k, v). '' '' @ k @ ''='' @ v)
          ([(''time'', now), (''ip'', ip l), (''method'', method l), (''path'', path l),
            (''ua'', ua l), (''status'', Itoa (sint (status l))), (''params'', params l)]
           @ map (\<lambda>k. (k, Sprintf_v (the (extras l k)))) ks))
        @ [newline]]
   \<and> length (snd (Log l ws now ks) (w l)) = Suc (length (ws (w l)))
   \<and> dec_int (Itoa (sint (status l))) = sint (status l)
   \<and> length ks = card (dom (extras l)) \<and> set ks = dom (extras l) \<and> distinct ks"
  using assms range_order_length[OF assms]
  by (simp add: Log_def Write_to_def buildLogEntry_layout extras_segment_fun comp_def range_order_def
        dec_int_Itoa)

theorem Log_writes_one_line_witness:
  "range_order (extras (Add (Add (SetStatus (New 3) 200) ''uid'' (IntVal 1234)) ''secret'' (StrVal ''shhh!'')))
     [''uid'', ''secret'']
   \<and> snd (Log (Add (Add (SetStatus (New 3) 200) ''uid'' (IntVal 1234)) ''secret'' (StrVal ''shhh!''))
          (\<lambda>r. []) ''2017-07-08T17:08:12UTC'' [''uid'', ''secret'']) 3 =
       [''level=I time=2017-07-08T17:08:12UTC ip= method= path= ua= status=200 params= uid=1234 secret=shhh!''
        @ [newline]]"
proof -
  let ?l = "Add (Add (SetStatus (New 3) 200) ''uid'' (IntVal 1234)) ''secret'' (StrVal ''shhh!'')"
  have h: "range_order (extras ?l) [''uid'', ''secret'']"
    by (auto simp: range_order_def Add_def SetStatus_def New_def)
  show ?thesis
    using h Log_writes_one_line [OF h, of "\<lambda>r. []" "''2017-07-08T17:08:12UTC''"]
    by (simp add: Add_def SetStatus_def New_def Itoa_def dec_digits.simps)
qed

section \<open>Log changes nothing but the writer\<close>

text \<open>
  Claim C8. \<open>Log\<close> leaves the logger as it was: \<open>ip\<close>, \<open>method\<close>, \<open>path\<close>, \<open>ua\<close>, \<open>params\<close>,
  \<open>status\<close>, \<open>extras\<close> and the writer reference are unchanged. Among the writers, only the
  logger's own receives a write; every other writer is as before.
\<close>

theorem Log_frame:
  "fst (Log l ws now ks) = l
   \<and> w (fst (Log l ws now ks)) = w l \<and> ip (fst (Log l ws now ks)) = ip l
   \<and> method (fst (Log l ws now ks)) = method l \<and> path (fst (Log l ws now ks)) = path l
   \<and> ua (fst (Log l ws now ks)) = ua l \<and> params (fst (Log l ws now ks)) = params l
   \<and> status (fst (Log l ws now ks)) = status l \<and> extras (fst (Log l ws now ks)) = extras l
   \<and> reqRaw (fst (Log l ws now ks)) = reqRaw l
   \<and> snd (Log l ws now ks) = ws(w l := ws (w l) @ [buildLogEntry l now ks @ [newline]])"
  by (simp add: Log_def Write_to_def)

section \<open>A new logger\<close>

text \<open>
  Claim C9. A logger made by \<open>New\<close> has empty \<open>ip\<close>, \<open>method\<close>, \<open>path\<close>, \<open>ua\<close> and \<open>params\<close>,
  status 0 and an empty extras map; its first \<open>Log\<close> writes the line
  \<open>level=I time=<timestamp> ip= method= path= ua= status=0 params=\<close> and one newline.
\<close>

theorem New_first_Log:
  assumes "range_order (extras (New r)) ks"
  shows "ip (New r) = [] \<and> method (New r) = [] \<and> path (New r) = [] \<and> ua (New r) = []
   \<and> params (New r) = [] \<and> status (New r) = 0 \<and> extras (New r) = Map.empty
   \<and> w (New r) = r
   \<and> snd (Log (New r) ws now ks) r
       = ws r @ [''level=I time='' @ now @ '' ip= method= path= ua= status=0 params='' @ [newline]]"
proof -
  have "ks = []" using assms by (simp add: New_def range_order_empty)
  then show ?thesis
    by (simp add: New_def Log_def Write_to_def buildLogEntry_def Itoa_def dec_digits.simps)
qed

theorem New_first_Log_witness:
  "range_order (extras (New 7)) []
   \<and> snd (Log (New 7) (\<lambda>r. []) ''2017-07-08T17:08:12UTC'' []) 7
       = [''level=I time=2017-07-08T17:08:12UTC ip= method= path= ua= status=0 params='' @ [newline]]"
proof -
  have h: "range_order (extras (New 7)) []" by (simp add: New_def range_order_def)
  show ?thesis using h New_first_Log [OF h, of "\<lambda>r. []" "''2017-07-08T17:08:12UTC''"] by simp
qed

section \<open>Logging twice\<close>

text \<open>
  Claim C7 says that two consecutive calls of \<open>Log\<close> on an unchanged logger write lines
  that differ in the value of \<open>time=\<close> only. With two entries in \<open>extras\<close> the loop over the
  map may visit them in either order, so the two lines can differ in the order of the
  extras even when the time is the same.
\<close>

theorem Log_twice_counterexample:
  "range_order (extras (Add (Add (New 0) ''a'' (IntVal 1)) ''b'' (IntVal 2))) [''a'', ''b'']
   \<and> range_order (extras (Add (Add (New 0) ''a'' (IntVal 1)) ''b'' (IntVal 2))) [''b'', ''a'']
   \<and> snd (Log (Add (Add (New 0) ''a'' (IntVal 1)) ''b'' (IntVal 2)) (\<lambda>r. []) ''T'' [''a'', ''b'']) 0
       = [''level=I time=T ip= method= path= ua= status=0 params= a=1 b=2'' @ [newline]]
   \<and> snd (Log (fst (Log (Add (Add (New 0) ''a'' (IntVal 1)) ''b'' (IntVal 2)) (\<lambda>r. []) ''T'' [''a'', ''b'']))
            (\<lambda>r. []) ''T'' [''b'', ''a'']) 0
       = [''level=I time=T ip= method= path= ua= status=0 params= b=2 a=1'' @ [newline]]"
  by (auto simp: range_order_def Add_def New_def Log_def Write_to_def buildLogEntry_def
        extras_segment_def Itoa_def dec_digits.simps)

text \<open>
  Claim C7, amended. Two consecutive calls of \<open>Log\<close> on an unchanged logger write lines
  that agree on everything but the value of \<open>time=\<close> and the order of the extras segments:
  the fixed fields are the same and the extras segments are the same up to order. With at
  most one entry in \<open>extras\<close> there is only one order, and the lines differ in the time
  only.
\<close>

theorem Log_twice_same_up_to_time_and_order:
  assumes "range_order (extras l) ks1" and "range_order (extras l) ks2"
  shows "buildLogEntry l t1 ks1
           = ''level=I time='' @ t1
               @ '' ip='' @ ip l @ '' method='' @ method l @ '' path='' @ path l @ '' ua='' @ ua l
               @ '' status='' @ Itoa (sint (status l)) @ '' params='' @ params l
               @ concat (map (extras_segment l) ks1)
   \<and> buildLogEntry (fst (Log l ws t1 ks1)) t2 ks2
           = ''level=I time='' @ t2
               @ '' ip='' @ ip l @ '' method='' @ method l @ '' path='' @ path l @ '' ua='' @ ua l
               @ '' status='' @ Itoa (sint (status l)) @ '' params='' @ params l
               @ concat (map (extras_segment l) ks2)
   \<and> mset (map (extras_segment l) ks1) = mset (map (extras_segment l) ks2)
   \<and> (card (dom (extras l)) \<le> 1 \<longrightarrow> ks1 = ks2)"
proof -
  have "mset ks1 = mset ks2" using assms by (rule range_order_mset)
  then have "mset (map (extras_segment l) ks1) = mset (map (extras_segment l) ks2)"
    by (metis mset_map)
  moreover have "card (dom (extras l)) \<le> 1 \<longrightarrow> ks1 = ks2"
    using assms range_order_small by blast
  moreover have "fst (Log l ws t1 ks1) = l" by (simp add: Log_def)
  ultimately show ?thesis by (simp add: buildLogEntry_layout)
qed

theorem Log_twice_same_up_to_time_and_order_witness:
  "range_order (extras (Add (Add (New 0) ''a'' (IntVal 1)) ''b'' (IntVal 2))) [''a'', ''b'']
   \<and> range_order (extras (Add (Add (New 0) ''a'' (IntVal 1)) ''b'' (IntVal 2))) [''b'', ''a'']
   \<and> mset (map (extras_segment (Add (Add (New 0) ''a'' (IntVal 1)) ''b'' (IntVal 2))) [''a'', ''b''])
       = mset (map (extras_segment (Add (Add (New 0) ''a'' (IntVal 1)) ''b'' (IntVal 2))) [''b'', ''a''])
   \<and> buildLogEntry (Add (Add (New 0) ''a'' (IntVal 1)) ''b'' (IntVal 2)) ''T1'' [''a'', ''b'']
       = ''level=I time=T1 ip= method= path= ua= status=0 params= a=1 b=2''"
proof -
  let ?l = "Add (Add (New 0) ''a'' (IntVal 1)) ''b'' (IntVal 2)"
  have h1: "range_order (extras ?l) [''a'', ''b'']"
    by (auto simp: range_order_def Add_def New_def)
  have h2: "range_order (extras ?l) [''b'', ''a'']"
    by (auto simp: range_order_def Add_def New_def)
  show ?thesis
    using h1 h2 Log_twice_same_up_to_time_and_order [OF h1 h2, of "''T1''" "\<lambda>r. []" "''T2''"]
    by (simp add: Add_def New_def extras_segment_def Itoa_def dec_digits.simps)
qed

section \<open>The query string\<close>




section \<open>The client address\<close>

text \<open>
  Claim C4 says that the ip is the raw value of the \<open>X-Forwarded-For\<close> header when the
  request carries one, and otherwise the peer address with everything from its last colon
  on removed. For the peer address \<open>[::1]:8080\<close> that would be \<open>[::1]\<close>, but \<open>SplitHostPort\<close>
  also removes the brackets: the ip is \<open>::1\<close>. And a request that carries the header with
  an empty value gets the host of the peer address, not the empty value.
\<close>

theorem getIP_counterexample:
  "getIP \<lparr> Header = Map.empty, RemoteAddr = ''[::1]:8080'', Dump = None \<rparr> = ''::1''
   \<and> LastIndexByte ''[::1]:8080'' (CHR '':'') = Some 5
   \<and> take 5 ''[::1]:8080'' = ''[::1]''
   \<and> getIP \<lparr> Header = [''X-Forwarded-For'' \<mapsto> [[]]], RemoteAddr = ''10.0.0.1:8080'', Dump = None \<rparr>
        = ''10.0.0.1''
   \<and> Header_Get [''X-Forwarded-For'' \<mapsto> [[]]] ''X-Forwarded-For'' = []"
  by (simp add: getIP_def Header_Get_def SplitHostPort_def LastIndexByte_def IndexByte_def
        split_checks_def)

text \<open>
  Claim C4, amended. If the first value of the \<open>X-Forwarded-For\<close> header is not empty, the
  ip is that value verbatim. Otherwise (no header, or an empty value) the ip is the host
  that \<open>net.SplitHostPort\<close> finds in the peer address: for \<open>h:p\<close> (no colon or bracket in
  \<open>h\<close> and \<open>p\<close>) it is \<open>h\<close>, for \<open>[h]:p\<close> it is \<open>h\<close> without the brackets, and every address
  \<open>SplitHostPort\<close> accepts has one of these two shapes; when \<open>SplitHostPort\<close> rejects the
  address, as it does when there is no colon, the ip is the peer address verbatim.
\<close>

theorem getIP_forwarded_or_host:
  "(Header_Get (Header r) ''X-Forwarded-For'' \<noteq> []
      \<longrightarrow> getIP r = Header_Get (Header r) ''X-Forwarded-For'')
   \<and> (Header_Get (Header r) ''X-Forwarded-For'' = [] \<and> RemoteAddr r = h @ '':'' @ p
        \<and> CHR '':'' \<notin> set (h @ p) \<and> CHR ''['' \<notin> set (h @ p) \<and> CHR '']'' \<notin> set (h @ p)
      \<longrightarrow> getIP r = h)
   \<and> (Header_Get (Header r) ''X-Forwarded-For'' = [] \<and> RemoteAddr r = ''['' @ h @ '']:'' @ p
        \<and> CHR '':'' \<notin> set p \<and> CHR ''['' \<notin> set (h @ p) \<and> CHR '']'' \<notin> set (h @ p)
      \<longrightarrow> getIP r = h)
   \<and> (Header_Get (Header r) ''X-Forwarded-For'' = [] \<and> SplitHostPort (RemoteAddr r) = Inr (h, p)
      \<longrightarrow> getIP r = h \<and> CHR '':'' \<notin> set p
          \<and> (RemoteAddr r = h @ '':'' @ p \<or> RemoteAddr r = ''['' @ h @ '']:'' @ p))
   \<and> (Header_Get (Header r) ''X-Forwarded-For'' = [] \<and> SplitHostPort (RemoteAddr r) = Inl e
      \<longrightarrow> getIP r = RemoteAddr r)
   \<and> (Header_Get (Header r) ''X-Forwarded-For'' = [] \<and> CHR '':'' \<notin> set (RemoteAddr r)
      \<longrightarrow> getIP r = RemoteAddr r)"
proof (intro conjI impI)
  assume "Header_Get (Header r) ''X-Forwarded-For'' \<noteq> []"
  then show "getIP r = Header_Get (Header r) ''X-Forwarded-For''"
    by (simp add: getIP_def)
next
  assume a: "Header_Get (Header r) ''X-Forwarded-For'' = [] \<and> RemoteAddr r = h @ '':'' @ p
        \<and> CHR '':'' \<notin> set (h @ p) \<and> CHR ''['' \<notin> set (h @ p) \<and> CHR '']'' \<notin> set (h @ p)"
  then have "SplitHostPort (RemoteAddr r) = Inr (h, p)"
    using SplitHostPort_plain[of h p] by simp
  then show "getIP r = h" using a by (simp add: getIP_def)
next
  assume a: "Header_Get (Header r) ''X-Forwarded-For'' = [] \<and> RemoteAddr r = ''['' @ h @ '']:'' @ p
        \<and> CHR '':'' \<notin> set p \<and> CHR ''['' \<notin> set (h @ p) \<and> CHR '']'' \<notin> set (h @ p)"
  then have "SplitHostPort (RemoteAddr r) = Inr (h, p)"
    using SplitHostPort_bracket[of p h] by simp
  then show "getIP r = h" using a by (simp add: getIP_def)
next
  assume a: "Header_Get (Header r) ''X-Forwarded-For'' = [] \<and> SplitHostPort (RemoteAddr r) = Inr (h, p)"
  then show "getIP r = h" by (simp add: getIP_def)
  from a show "CHR '':'' \<notin> set p" using SplitHostPort_shape by blast
  from a show "RemoteAddr r = h @ '':'' @ p \<or> RemoteAddr r = ''['' @ h @ '']:'' @ p"
    using SplitHostPort_shape by blast
next
  assume "Header_Get (Header r) ''X-Forwarded-For'' = [] \<and> SplitHostPort (RemoteAddr r) = Inl e"
  then show "getIP r = RemoteAddr r" by (simp add: getIP_def)
next
  assume a: "Header_Get (Header r) ''X-Forwarded-For'' = [] \<and> CHR '':'' \<notin> set (RemoteAddr r)"
  then have "SplitHostPort (RemoteAddr r) = Inl ''missing port in address''"
    using SplitHostPort_no_colon by blast
  then show "getIP r = RemoteAddr r" using a by (simp add: getIP_def)
qed

theorem getIP_forwarded_or_host_witness:
  "getIP \<lparr> Header = [''X-Forwarded-For'' \<mapsto> [''127.0.0.1, 10.0.0.7'']],
            RemoteAddr = ''192.0.2.1:1234'', Dump = None \<rparr> = ''127.0.0.1, 10.0.0.7''
   \<and> getIP \<lparr> Header = Map.empty, RemoteAddr = ''192.0.2.1:1234'', Dump = None \<rparr> = ''192.0.2.1''
   \<and> getIP \<lparr> Header = Map.empty, RemoteAddr = ''[::1]:8080'', Dump = None \<rparr> = ''::1''
   \<and> getIP \<lparr> Header = Map.empty, RemoteAddr = ''a:b:c'', Dump = None \<rparr> = ''a:b:c''
   \<and> SplitHostPort ''a:b:c'' = Inl ''too many colons in address''
   \<and> SplitHostPort ''192.0.2.1:1234'' = Inr (''192.0.2.1'', ''1234'')
   \<and> getIP \<lparr> Header = Map.empty, RemoteAddr = ''localhost'', Dump = None \<rparr> = ''localhost''"
proof -
  have e: "SplitHostPort ''a:b:c'' = Inl ''too many colons in address''"
    by (simp add: SplitHostPort_def LastIndexByte_def IndexByte_def split_checks_def)
  have s: "SplitHostPort ''192.0.2.1:1234'' = Inr (''192.0.2.1'', ''1234'')"
    by (simp add: SplitHostPort_def LastIndexByte_def IndexByte_def split_checks_def)
  show ?thesis
    using e s
      getIP_forwarded_or_host [of "\<lparr> Header = [''X-Forwarded-For'' \<mapsto> [''127.0.0.1, 10.0.0.7'']],
            RemoteAddr = ''192.0.2.1:1234'', Dump = None \<rparr>"]
      getIP_forwarded_or_host [of "\<lparr> Header = Map.empty, RemoteAddr = ''192.0.2.1:1234'', Dump = None \<rparr>"
          "''192.0.2.1''" "''1234''"]
      getIP_forwarded_or_host [of "\<lparr> Header = Map.empty, RemoteAddr = ''[::1]:8080'', Dump = None \<rparr>"
          "''::1''" "''8080''"]
      getIP_forwarded_or_host [of "\<lparr> Header = Map.empty, RemoteAddr = ''a:b:c'', Dump = None \<rparr>"
          _ _ "''too many colons in address''"]
      getIP_forwarded_or_host [of "\<lparr> Header = Map.empty, RemoteAddr = ''localhost'', Dump = None \<rparr>"]
    by (simp add: Header_Get_def)
qed

section \<open>The status seen by the middleware\<close>

text \<open>
  Claim C5 says that the status passed to \<open>SetStatus\<close> before \<open>Log\<close> is the argument of the
  first call of \<open>WriteHeader\<close> made by the downstream handler. \<open>WriteHeader\<close> of the wrapper
  stores its argument at every call, so after \<open>WriteHeader(200)\<close> and \<open>WriteHeader(500)\<close> the
  logged status is 500.
\<close>

theorem ServeHTTP_status_counterexample:
  "status (logger (snd (ServeHTTP (\<lambda>r. ([WriteHeader 200, WriteHeader 500], Returns))
       \<lparr> logger = New 0, sinks = (\<lambda>r. []), response = [] \<rparr>
       \<lparr> Header = Map.empty, RemoteAddr = ''192.0.2.1:1234'', Dump = None \<rparr> ''T'' []))) = 500
   \<and> response (snd (ServeHTTP (\<lambda>r. ([WriteHeader 200, WriteHeader 500], Returns))
       \<lparr> logger = New 0, sinks = (\<lambda>r. []), response = [] \<rparr>
       \<lparr> Header = Map.empty, RemoteAddr = ''192.0.2.1:1234'', Dump = None \<rparr> ''T'' []))
        = [WriteHeader 200, WriteHeader 500]
   \<and> sinks (snd (ServeHTTP (\<lambda>r. ([WriteHeader 200, WriteHeader 500], Returns))
       \<lparr> logger = New 0, sinks = (\<lambda>r. []), response = [] \<rparr>
       \<lparr> Header = Map.empty, RemoteAddr = ''192.0.2.1:1234'', Dump = None \<rparr> ''T'' [])) 0
        = [''level=I time=T ip=192.0.2.1 method= path= ua= status=500 params='' @ [newline]]"
  by (simp add: ServeHTTP_def SetRequestInfo_def reqDump_def scan_lines.simps getIP_def Header_Get_def
      SplitHostPort_def LastIndexByte_def IndexByte_def split_checks_def
      lrw_WriteHeader_def SetStatus_def Log_def Write_to_def New_def buildLogEntry_def
      Itoa_def dec_digits.simps)

text \<open>
  Claim C5, amended. When the downstream handler returns, the status passed to
  \<open>SetStatus\<close> before \<open>Log\<close> is the argument of the last call of \<open>WriteHeader\<close> the handler
  made on the wrapped writer, or 0 if it made none; the line is rendered with that status;
  and every call the handler made, each \<open>WriteHeader\<close> included, has reached the real
  response writer in order.
\<close>

theorem ServeHTTP_status:
  assumes "next r = (calls, Returns)"
  shows "fst (ServeHTTP next wd r now ks) = Returns
   \<and> status (logger (snd (ServeHTTP next wd r now ks))) = last (0 # [s. WriteHeader s \<leftarrow> calls])
   \<and> response (snd (ServeHTTP next wd r now ks)) = response wd @ calls
   \<and> sinks (snd (ServeHTTP next wd r now ks))
       = Write_to (sinks wd) (w (logger wd))
           (buildLogEntry (SetStatus (SetRequestInfo (logger wd) r) (last (0 # [s. WriteHeader s \<leftarrow> calls])))
              now ks @ [newline])"
  using assms
  by (simp add: ServeHTTP_def Let_def foldl_lrw_call Log_def SetStatus_def SetRequestInfo_w)

theorem ServeHTTP_status_witness:
  "(\<lambda>r. ([Write ''{}'', WriteHeader 200, WriteHeader 404], Returns))
       \<lparr> Header = Map.empty, RemoteAddr = ''192.0.2.1:1234'', Dump = None \<rparr>
     = ([Write ''{}'', WriteHeader 200, WriteHeader 404], Returns)
   \<and> status (logger (snd (ServeHTTP (\<lambda>r. ([Write ''{}'', WriteHeader 200, WriteHeader 404], Returns))
       \<lparr> logger = New 0, sinks = (\<lambda>r. []), response = [] \<rparr>
       \<lparr> Header = Map.empty, RemoteAddr = ''192.0.2.1:1234'', Dump = None \<rparr> ''T'' []))) = 404
   \<and> status (logger (snd (ServeHTTP (\<lambda>r. ([Write ''{}''], Returns))
       \<lparr> logger = New 0, sinks = (\<lambda>r. []), response = [] \<rparr>
       \<lparr> Header = Map.empty, RemoteAddr = ''192.0.2.1:1234'', Dump = None \<rparr> ''T'' []))) = 0"
  using ServeHTTP_status [of "\<lambda>r. ([Write ''{}'', WriteHeader 200, WriteHeader 404], Returns)"
       "\<lparr> Header = Map.empty, RemoteAddr = ''192.0.2.1:1234'', Dump = None \<rparr>"
       "[Write ''{}'', WriteHeader 200, WriteHeader 404]"
       "\<lparr> logger = New 0, sinks = (\<lambda>r. []), response = [] \<rparr>" "''T''" "[]"]
     ServeHTTP_status [of "\<lambda>r. ([Write ''{}''], Returns)"
       "\<lparr> Header = Map.empty, RemoteAddr = ''192.0.2.1:1234'', Dump = None \<rparr>"
       "[Write ''{}'']"
       "\<lparr> logger = New 0, sinks = (\<lambda>r. []), response = [] \<rparr>" "''T''" "[]"]
  by simp

section \<open>A downstream handler that panics\<close>

text \<open>
  Claim C6 says that \<open>Log\<close> is invoked exactly once per request, after the downstream
  handler has returned, also when the handler panics. The \<open>defer\<close> statement of \<open>ServeHTTP\<close>
  comes after the call of the handler, so a panic of the handler leaves \<open>ServeHTTP\<close> before
  \<open>Log\<close> is deferred: nothing is written. When the handler returns, exactly one line is
  written.
\<close>

theorem ServeHTTP_panic_no_Log:
  "fst (ServeHTTP (\<lambda>r. ([WriteHeader 200], Panics))
       \<lparr> logger = New 0, sinks = (\<lambda>r. []), response = [] \<rparr>
       \<lparr> Header = Map.empty, RemoteAddr = ''192.0.2.1:1234'', Dump = None \<rparr> ''T'' []) = Panics
   \<and> sinks (snd (ServeHTTP (\<lambda>r. ([WriteHeader 200], Panics))
       \<lparr> logger = New 0, sinks = (\<lambda>r. []), response = [] \<rparr>
       \<lparr> Header = Map.empty, RemoteAddr = ''192.0.2.1:1234'', Dump = None \<rparr> ''T'' [])) 0 = []
   \<and> sinks (snd (ServeHTTP (\<lambda>r. (calls, Panics)) wd r now ks)) = sinks wd
   \<and> length (sinks (snd (ServeHTTP (\<lambda>r. (calls, Returns)) wd r now ks)) (w (logger wd)))
        = Suc (length (sinks wd (w (logger wd))))"
  by (simp add: ServeHTTP_def Let_def Log_def Write_to_def SetStatus_def SetRequestInfo_w)

section \<open>Fields left over from an earlier request\<close>

text \<open>
  Claim C1 says that after \<open>SetRequestInfo\<close> the fields \<open>ip\<close>, \<open>method\<close>, \<open>path\<close>, \<open>ua\<close> and
  \<open>params\<close> are what the request alone determines, whatever they were before. The code
  assigns \<open>params\<close> from the last line only when \<open>params\<close> is empty, and \<open>ua\<close> only when a
  \<open>User-Agent\<close> line is found: after the \<open>GET\<close> request, the \<open>POST\<close> request leaves the params
  and the user agent of the \<open>GET\<close> in place, where on a new logger it gives the body as
  params and an empty user agent.
\<close>

theorem SetRequestInfo_keeps_stale_fields:
  \<open>params (SetRequestInfo (SetRequestInfo (New 0) req_get) req_post) = ''{"x": "1"}''
   \<and> ua (SetRequestInfo (SetRequestInfo (New 0) req_get) req_post) = ''u1''
   \<and> method (SetRequestInfo (SetRequestInfo (New 0) req_get) req_post) = ''POST''
   \<and> path (SetRequestInfo (SetRequestInfo (New 0) req_get) req_post) = ''/b''
   \<and> params (SetRequestInfo (New 0) req_post) = ''k=v''
   \<and> ua (SetRequestInfo (New 0) req_post) = []
   \<and> method (SetRequestInfo (New 0) req_post) = ''POST''
   \<and> path (SetRequestInfo (New 0) req_post) = ''/b''\<close>
  unfolding SetRequestInfo_post_after_get SetRequestInfo_post by (simp add: New_def)

end
